theory Spec2Isabelle
  imports Complex_Main "HOL-Library.Char_ord" "HOL-Library.List_Lexorder"
begin

section \<open>PDF merger: a shallow embedding of \<^verbatim>\<open>pdf_merger.py\<close>\<close>

text \<open>
  The script is an orchestration layer over the file system and a PDF library. Both are
  outside the program, so the model takes them as a parameter, the \<open>world\<close>: what
  \<^verbatim>\<open>os.path.exists\<close>, \<^verbatim>\<open>os.walk\<close>, \<^verbatim>\<open>os.path.getmtime\<close>, \<^verbatim>\<open>os.path.getsize\<close> and
  \<^verbatim>\<open>PdfReader\<close> answer during one run. Everything the script does to the outside (printing,
  appending a page to the writer, writing the output file) is recorded, in order, in a
  trace of events.

  Modelling decisions:
  \<^item> A string is the sequence of bytes of its UTF-8 encoding. Comparing two strings,
    testing a suffix, splitting at a slash and concatenating give on the bytes what Python
    gives on the code points. Path operations are those of \<^verbatim>\<open>posixpath\<close>.
  \<^item> \<^verbatim>\<open>str.lower\<close> depends on the case table of Unicode, which is not part of the program:
    it is a parameter of the model, the field \<open>lower\<close> of the world. Where a property needs
    it, the only assumption made is that it lowers a string of ASCII characters letter by
    letter (\<open>lower_on_ascii\<close>).
  \<^item> \<open>exn\<close> stands for the subclasses of Python's \<^verbatim>\<open>Exception\<close>, the ones an
    \<^verbatim>\<open>except Exception\<close> clause catches.
  \<^item> A library call inside the \<^verbatim>\<open>try\<close> block of \<^verbatim>\<open>merge_pdfs\<close> may raise: opening the
    file, decrypting it, and the page loop (enumerating \<^verbatim>\<open>reader.pages\<close>, \<^verbatim>\<open>add_page\<close>,
    \<^verbatim>\<open>len(reader.pages)\<close>). An exception raised while reading \<^verbatim>\<open>is_encrypted\<close> has the
    same effect as one raised by \<^verbatim>\<open>PdfReader(path)\<close> and is represented by it.
  \<^item> The final \<^verbatim>\<open>open(output, "wb")\<close> and \<^verbatim>\<open>writer.write(f)\<close> may raise as well; they are
    outside the \<^verbatim>\<open>try\<close> block, so the exception leaves \<^verbatim>\<open>merge_pdfs\<close>. Opening creates or
    truncates the file.
  \<^item> \<^verbatim>\<open>print\<close> is taken to complete.
\<close>

subsection \<open>Strings and paths\<close>

type_synonym path = string

text \<open>The ASCII part of the case table: the letters A to Z are lowered.\<close>

definition lower_char :: "char \<Rightarrow> char" where
  "lower_char c =
     (let n = (of_char c :: nat) in if 65 \<le> n \<and> n \<le> 90 then char_of (n + 32) else c)"

text \<open>What \<^verbatim>\<open>str.lower\<close> does to a string of ASCII characters.\<close>

definition ascii_lower :: "string \<Rightarrow> string" where
  "ascii_lower s = map lower_char s"

definition ascii :: "string \<Rightarrow> bool" where
  "ascii s = list_all (\<lambda>c. (of_char c :: nat) < 128) s"

definition endswith :: "string \<Rightarrow> string \<Rightarrow> bool" where
  "endswith s suf = (length suf \<le> length s \<and> drop (length s - length suf) s = suf)"

text \<open>\<^verbatim>\<open>posixpath.basename\<close>: what follows the last slash.\<close>

definition basename :: "path \<Rightarrow> string" where
  "basename p = rev (takeWhile (\<lambda>c. c \<noteq> CHR ''/'') (rev p))"

text \<open>\<^verbatim>\<open>posixpath.join\<close> of two components.\<close>

definition join :: "path \<Rightarrow> string \<Rightarrow> path" where
  "join a b =
     (if b \<noteq> [] \<and> hd b = CHR ''/'' then b
      else if a = [] \<or> last a = CHR ''/'' then a @ b
      else a @ ''/'' @ b)"

text \<open>\<^verbatim>\<open>str(n)\<close> for a non-negative integer, as the f-strings print it.\<close>

function str_nat :: "nat \<Rightarrow> string" where
  "str_nat n =
     (if n < 10 then [char_of (48 + n)]
      else str_nat (n div 10) @ [char_of (48 + n mod 10)])"
  by pat_completeness auto
termination
  by (relation "measure id") auto

declare str_nat.simps [simp del]

subsection \<open>Exceptions, the PDF library and the file system\<close>

datatype exn =
    RuntimeError string
  | TypeError string
  | OSError string
  | LibraryError string

text \<open>\<^verbatim>\<open>str(e)\<close>, as the f-strings print an exception.\<close>

fun str_exn :: "exn \<Rightarrow> string" where
  "str_exn (RuntimeError m) = m"
| "str_exn (TypeError m) = m"
| "str_exn (OSError m) = m"
| "str_exn (LibraryError m) = m"

datatype page = Page nat

text \<open>
  What the page loop of one reader does: the pages it appends, in order, and the exception
  that ends it early, if any.
\<close>

record page_enum =
  yielded :: "page list"
  failure :: "exn option"

record reader =
  is_encrypted :: bool
  decrypt :: "string \<Rightarrow> exn option"
  pages :: page_enum

text \<open>
  The surroundings of one run. \<open>open_wb\<close> tells whether \<^verbatim>\<open>open(path, "wb")\<close> raises, and
  \<open>writer_write\<close> whether writing a document into the file opened at a path raises.
\<close>

record world =
  lower :: "string \<Rightarrow> string"
  path_exists :: "path \<Rightarrow> bool"
  PdfReader :: "path \<Rightarrow> exn + reader"
  walk :: "path \<Rightarrow> (path \<times> path list \<times> path list) list"
  getmtime :: "path \<Rightarrow> exn + real"
  getsize :: "path \<Rightarrow> exn + nat"
  open_wb :: "path \<Rightarrow> exn option"
  writer_write :: "path \<Rightarrow> page list \<Rightarrow> exn option"

subsection \<open>Effects and the state of one merge\<close>

text \<open>
  \<open>OpenFile p\<close>: the file at \<open>p\<close> has been opened for writing, so created or truncated.
  \<open>WriteFile p d\<close>: the document \<open>d\<close> has been written into it completely.
\<close>

datatype event =
    Print string
  | AddPage page
  | OpenFile path
  | WriteFile path "page list"

record mstate =
  writer :: "page list"
  pages_added :: nat
  trace :: "event list"

definition say :: "string \<Rightarrow> mstate \<Rightarrow> mstate" where
  "say msg s = s\<lparr>trace := trace s @ [Print msg]\<rparr>"

text \<open>The files written during a run, in order, with their contents.\<close>

fun writes :: "event list \<Rightarrow> (path \<times> page list) list" where
  "writes [] = []"
| "writes (WriteFile f d # es) = (f, d) # writes es"
| "writes (e # es) = writes es"

text \<open>The paths opened for writing during a run, in order.\<close>

fun opened :: "event list \<Rightarrow> path list" where
  "opened [] = []"
| "opened (OpenFile f # es) = f # opened es"
| "opened (e # es) = opened es"

text \<open>The pages appended to the writer during a run, in order.\<close>

fun added :: "event list \<Rightarrow> page list" where
  "added [] = []"
| "added (AddPage p # es) = p # added es"
| "added (e # es) = added es"

subsection \<open>\<^verbatim>\<open>find_pdfs_in_dir\<close> and \<^verbatim>\<open>sort_files\<close>\<close>

definition find_pdfs_in_dir :: "world \<Rightarrow> path \<Rightarrow> path list" where
  "find_pdfs_in_dir w directory =
     concat (map (\<lambda>(root, _, files).
                    map (join root) (filter (\<lambda>f. endswith (lower w f) ''.pdf'') files))
                 (walk w directory))"

text \<open>
  \<^verbatim>\<open>sorted(xs, key=..., reverse=...)\<close>: a stable sort; with \<^verbatim>\<open>reverse\<close> the list is
  reversed, sorted and reversed again, so that equal keys keep their original order.
\<close>

definition py_sorted :: "('a \<Rightarrow> 'k::linorder) \<Rightarrow> bool \<Rightarrow> 'a list \<Rightarrow> 'a list" where
  "py_sorted key reverse xs =
     (if reverse then rev (sort_key key (rev xs)) else sort_key key xs)"

text \<open>The keys are computed first, in list order; the first failing one raises.\<close>

fun decorate :: "('a \<Rightarrow> exn + 'k) \<Rightarrow> 'a list \<Rightarrow> exn + ('k \<times> 'a) list" where
  "decorate key [] = Inr []"
| "decorate key (x # xs) =
     (case key x of
        Inl e \<Rightarrow> Inl e
      | Inr k \<Rightarrow> (case decorate key xs of
                    Inl e \<Rightarrow> Inl e
                  | Inr kxs \<Rightarrow> Inr ((k, x) # kxs)))"

definition sort_files :: "world \<Rightarrow> path list \<Rightarrow> string \<Rightarrow> bool \<Rightarrow> exn + path list" where
  "sort_files w files key reverse =
     (if key = ''name'' then
        Inr (py_sorted (\<lambda>p. lower w (basename p)) reverse files)
      else if key = ''mtime'' then
        (case decorate (getmtime w) files of
           Inl e \<Rightarrow> Inl e
         | Inr kps \<Rightarrow> Inr (map snd (py_sorted fst reverse kps)))
      else if key = ''size'' then
        (case decorate (getsize w) files of
           Inl e \<Rightarrow> Inl e
         | Inr kps \<Rightarrow> Inr (map snd (py_sorted fst reverse kps)))
      else Inr files)"

subsection \<open>\<^verbatim>\<open>merge_pdfs\<close>\<close>

text \<open>\<^verbatim>\<open>if password:\<close> holds for a password that is neither \<^verbatim>\<open>None\<close> nor empty.\<close>

fun truthy :: "string option \<Rightarrow> bool" where
  "truthy None = False"
| "truthy (Some pw) = (pw \<noteq> [])"

text \<open>Lines 69 to 71: each page is appended and counted at once.\<close>

fun add_pages :: "page list \<Rightarrow> mstate \<Rightarrow> mstate" where
  "add_pages [] s = s"
| "add_pages (pg # pgs) s =
     add_pages pgs
       (s\<lparr>writer := writer s @ [pg],
          pages_added := pages_added s + 1,
          trace := trace s @ [AddPage pg]\<rparr>)"

text \<open>Lines 69 to 72: the page loop and the message after it.\<close>

definition read_pages :: "reader \<Rightarrow> path \<Rightarrow> mstate \<Rightarrow> exn option \<times> mstate" where
  "read_pages reader path s =
     (let s1 = add_pages (yielded (pages reader)) s in
      case failure (pages reader) of
        Some e \<Rightarrow> (Some e, s1)
      | None \<Rightarrow>
          (None, say (''[OK] Added '' @ str_nat (length (yielded (pages reader)))
                        @ '' pages from '' @ path) s1))"

text \<open>
  Lines 54 to 72, the body of the \<^verbatim>\<open>try\<close>. The result \<open>None\<close> stands for leaving the body
  normally or by \<^verbatim>\<open>continue\<close>, \<open>Some e\<close> for leaving it with the exception \<open>e\<close>.
\<close>

definition try_body ::
  "world \<Rightarrow> string option \<Rightarrow> bool \<Rightarrow> path \<Rightarrow> mstate \<Rightarrow> exn option \<times> mstate" where
  "try_body w password strict path s =
     (case PdfReader w path of
        Inl e \<Rightarrow> (Some e, s)
      | Inr reader \<Rightarrow>
          if is_encrypted reader then
            (if truthy password then
               (case decrypt reader (the password) of
                  Some e \<Rightarrow>
                    (let s1 = say (''[WARN] Could not decrypt '' @ path @ '': '' @ str_exn e) s
                     in if strict then (Some e, s1) else (None, s1))
                | None \<Rightarrow> read_pages reader path s)
             else
               (let s1 = say (''[WARN] Encrypted PDF skipped (no password): '' @ path) s
                in if strict
                   then (Some (RuntimeError (''Encrypted PDF requires password: '' @ path)), s1)
                   else (None, s1)))
          else read_pages reader path s)"

text \<open>Lines 48 to 76: one iteration of the loop over the inputs.\<close>

definition merge_file ::
  "world \<Rightarrow> string option \<Rightarrow> bool \<Rightarrow> path \<Rightarrow> mstate \<Rightarrow> exn option \<times> mstate" where
  "merge_file w password strict path s =
     (if \<not> endswith (lower w path) ''.pdf'' then (None, s)
      else if \<not> path_exists w path then (None, say (''[WARN] Not found: '' @ path) s)
      else
        (case try_body w password strict path s of
           (None, s1) \<Rightarrow> (None, s1)
         | (Some e, s1) \<Rightarrow>
             (let s2 = say (''[ERROR] Failed to read '' @ path @ '': '' @ str_exn e) s1
              in if strict then (Some e, s2) else (None, s2))))"

fun merge_loop ::
  "world \<Rightarrow> string option \<Rightarrow> bool \<Rightarrow> path list \<Rightarrow> mstate \<Rightarrow> exn option \<times> mstate" where
  "merge_loop w password strict [] s = (None, s)"
| "merge_loop w password strict (path # rest) s =
     (case merge_file w password strict path s of
        (Some e, s1) \<Rightarrow> (Some e, s1)
      | (None, s1) \<Rightarrow> merge_loop w password strict rest s1)"

definition init :: mstate where
  "init = \<lparr>writer = [], pages_added = 0, trace = []\<rparr>"

text \<open>
  The result is the exception raised (\<open>Inl\<close>) or the value returned (\<open>Inr\<close>), with the
  final state: the writer, the counter and the trace of the whole call.
\<close>

definition merge_pdfs ::
  "world \<Rightarrow> path list \<Rightarrow> path \<Rightarrow> string option \<Rightarrow> bool \<Rightarrow> (exn + nat) \<times> mstate" where
  "merge_pdfs w inputs output password strict =
     (case merge_loop w password strict inputs init of
        (Some e, s) \<Rightarrow> (Inl e, s)
      | (None, s) \<Rightarrow>
          if pages_added s = 0 then (Inl (RuntimeError ''No pages added. Check inputs.''), s)
          else
            (case open_wb w output of
               Some e \<Rightarrow> (Inl e, s)
             | None \<Rightarrow>
                 (let s1 = s\<lparr>trace := trace s @ [OpenFile output]\<rparr> in
                  case writer_write w output (writer s) of
                    Some e \<Rightarrow> (Inl e, s1)
                  | None \<Rightarrow>
                      (Inr (pages_added s),
                       s1\<lparr>trace := trace s1 @
                             [WriteFile output (writer s),
                              Print (''[DONE] Wrote '' @ output @ '' with ''
                                     @ str_nat (pages_added s) @ '' pages.'')]\<rparr>))))"

subsection \<open>\<^verbatim>\<open>main\<close>\<close>

text \<open>The parsed command line, as \<^verbatim>\<open>argparse\<close> hands it over.\<close>

record args =
  arg_inputs :: "path list option"
  arg_directory :: "path option"
  arg_output :: path
  arg_sort :: string
  arg_reverse :: bool
  arg_password :: "string option"
  arg_strict :: bool

text \<open>
  Lines 97 to 101: the value of \<^verbatim>\<open>files\<close>. \<^verbatim>\<open>if args.inputs:\<close> holds for a list that is
  neither \<^verbatim>\<open>None\<close> nor empty. Without a directory \<^verbatim>\<open>os.walk(None)\<close> raises a
  \<^verbatim>\<open>TypeError\<close>; \<^verbatim>\<open>argparse\<close> excludes this case.
\<close>

definition candidates :: "world \<Rightarrow> args \<Rightarrow> exn + path list" where
  "candidates w a =
     (case arg_inputs a of
        Some (f # fs) \<Rightarrow> Inr (filter (\<lambda>f. endswith (lower w f) ''.pdf'') (f # fs))
      | _ \<Rightarrow>
          (case arg_directory a of
             None \<Rightarrow> Inl (TypeError ''expected str, bytes or os.PathLike object, not NoneType'')
           | Some d \<Rightarrow> sort_files w (find_pdfs_in_dir w d) (arg_sort a) (arg_reverse a)))"

text \<open>How the process ends, and its exit status.\<close>

datatype exit = Completed | SystemExit string | Uncaught exn

fun exit_status :: "exit \<Rightarrow> nat" where
  "exit_status Completed = 0"
| "exit_status (SystemExit msg) = 1"
| "exit_status (Uncaught e) = 1"

text \<open>Lines 106 to 108: the list of files is printed before the merge.\<close>

definition announce :: "path list \<Rightarrow> event list" where
  "announce files =
     Print ''[INFO] Files to merge in order:'' # map (\<lambda>f. Print ('' - '' @ f)) files"

text \<open>
  The result of \<open>main\<close>: how the process ends, the trace of the run, and the calls of
  \<^verbatim>\<open>merge_pdfs\<close> it made, each with its list of files.
\<close>

definition main :: "world \<Rightarrow> args \<Rightarrow> exit \<times> event list \<times> path list list" where
  "main w a =
     (case candidates w a of
        Inl e \<Rightarrow> (Uncaught e, [], [])
      | Inr files \<Rightarrow>
          if files = [] then (SystemExit ''No PDF files found to merge.'', [], [])
          else
            (case merge_pdfs w files (arg_output a) (arg_password a) (arg_strict a) of
               (Inl e, s) \<Rightarrow> (Uncaught e, announce files @ trace s, [files])
             | (Inr n, s) \<Rightarrow> (Completed, announce files @ trace s, [files])))"

subsection \<open>Notions used to state the properties\<close>

text \<open>
  The pages that one input contributes to the writer when the loop processes it: all the
  pages its page loop appends, or none when the file is skipped before the page loop.
\<close>

definition appended :: "world \<Rightarrow> string option \<Rightarrow> path \<Rightarrow> page list" where
  "appended w password path =
     (if \<not> endswith (lower w path) ''.pdf'' \<or> \<not> path_exists w path then []
      else case PdfReader w path of
             Inl e \<Rightarrow> []
           | Inr reader \<Rightarrow>
               if \<not> is_encrypted reader then yielded (pages reader)
               else if \<not> truthy password then []
               else (case decrypt reader (the password) of
                       Some e \<Rightarrow> []
                     | None \<Rightarrow> yielded (pages reader)))"

text \<open>The events that follow the first write of a file.\<close>

fun after_write :: "event list \<Rightarrow> event list" where
  "after_write [] = []"
| "after_write (WriteFile f d # es) = es"
| "after_write (e # es) = after_write es"

text \<open>
  A step from \<open>s\<close> to \<open>s'\<close> that appends the pages \<open>ps\<close>: the writer and the
  counter grow by them, and the trace is extended by events that append exactly these
  pages and neither open nor write a file.
\<close>

definition grows :: "mstate \<Rightarrow> page list \<Rightarrow> mstate \<Rightarrow> bool" where
  "grows s ps s' \<longleftrightarrow>
     writer s' = writer s @ ps \<and>
     pages_added s' = pages_added s + length ps \<and>
     (\<exists>es. trace s' = trace s @ es \<and> opened es = [] \<and> writes es = [] \<and> added es = ps)"

text \<open>The assumption on \<^verbatim>\<open>str.lower\<close>: on ASCII strings it is the ASCII table.\<close>

definition lower_on_ascii :: "world \<Rightarrow> bool" where
  "lower_on_ascii w = (\<forall>s. ascii s \<longrightarrow> lower w s = ascii_lower s)"

text \<open>The pages of the document at a path, as the library enumerates them.\<close>

definition doc_pages :: "world \<Rightarrow> path \<Rightarrow> page list" where
  "doc_pages w path =
     (case PdfReader w path of Inl e \<Rightarrow> [] | Inr reader \<Rightarrow> yielded (pages reader))"

text \<open>
  A valid unencrypted input: the name ends in \<^verbatim>\<open>.pdf\<close>, the file exists, it opens, it is
  not encrypted and its page loop runs to the end.
\<close>

definition valid_plain :: "world \<Rightarrow> path \<Rightarrow> bool" where
  "valid_plain w path =
     (endswith (lower w path) ''.pdf'' \<and> path_exists w path \<and>
      (case PdfReader w path of
         Inl e \<Rightarrow> False
       | Inr reader \<Rightarrow> \<not> is_encrypted reader \<and> failure (pages reader) = None))"

text \<open>
  An input processed successfully: it is opened, decrypted if need be, and its page loop
  runs to the end.
\<close>

definition processed_ok :: "world \<Rightarrow> string option \<Rightarrow> path \<Rightarrow> bool" where
  "processed_ok w password path =
     (endswith (lower w path) ''.pdf'' \<and> path_exists w path \<and>
      (case PdfReader w path of
         Inl e \<Rightarrow> False
       | Inr reader \<Rightarrow>
           (\<not> is_encrypted reader \<or>
            (truthy password \<and> decrypt reader (the password) = None)) \<and>
           failure (pages reader) = None))"

subsection \<open>A concrete file system\<close>

definition plain_doc :: "page list \<Rightarrow> reader" where
  "plain_doc ps =
     \<lparr>is_encrypted = False, decrypt = (\<lambda>pw. None),
      pages = \<lparr>yielded = ps, failure = None\<rparr>\<rparr>"

definition locked_doc :: "string \<Rightarrow> page list \<Rightarrow> reader" where
  "locked_doc key ps =
     \<lparr>is_encrypted = True,
      decrypt = (\<lambda>pw. if pw = key then None else Some (LibraryError ''wrong password'')),
      pages = \<lparr>yielded = ps, failure = None\<rparr>\<rparr>"

text \<open>A document whose page loop appends \<open>ps\<close> and then raises.\<close>

definition torn_doc :: "page list \<Rightarrow> exn \<Rightarrow> reader" where
  "torn_doc ps e =
     \<lparr>is_encrypted = False, decrypt = (\<lambda>pw. None),
      pages = \<lparr>yielded = ps, failure = Some e\<rparr>\<rparr>"

text \<open>
  \<^verbatim>\<open>str.lower\<close> on the code points below U+0100, in UTF-8: the letters A to Z, and the
  letters U+00C0 to U+00DE without the sign U+00D7, which are the bytes C3 80 to C3 9E
  without C3 97.
\<close>

fun latin_lower :: "string \<Rightarrow> string" where
  "latin_lower [] = []"
| "latin_lower [c] = [lower_char c]"
| "latin_lower (c # d # s) =
     (if (of_char c :: nat) = 195 \<and> 128 \<le> (of_char d :: nat) \<and> (of_char d :: nat) \<le> 158 \<and>
         (of_char d :: nat) \<noteq> 151
      then c # char_of ((of_char d :: nat) + 32) # latin_lower s
      else lower_char c # latin_lower (d # s))"

definition demo_world :: world where
  "demo_world =
     \<lparr>lower = latin_lower,
      path_exists =
        (\<lambda>p. p \<in> set [''a.pdf'', ''B.PDF'', ''enc.pdf'', ''broken.pdf'', ''half.pdf'',
                       ''notes.txt'']),
      PdfReader =
        (\<lambda>p. if p = ''a.pdf'' then Inr (plain_doc [Page 1, Page 2])
             else if p = ''B.PDF'' then Inr (plain_doc [Page 3])
             else if p = ''enc.pdf'' then Inr (locked_doc ''secret'' [Page 4])
             else if p = ''half.pdf'' then Inr (torn_doc [Page 5] (LibraryError ''broken page''))
             else Inl (LibraryError ''EOF marker not found'')),
      walk =
        (\<lambda>d. if d = ''docs'' then
               [(''docs'', [''sub''], [''b.pdf'', ''A.pdf'', ''notes.txt'']),
                (''docs/sub'', [], [''c.pdf''])]
             else if d = ''empty'' then [(''empty'', [], [''readme.md''])]
             else []),
      getmtime = (\<lambda>p. Inl (OSError ''No such file or directory'')),
      getsize = (\<lambda>p. Inl (OSError ''No such file or directory'')),
      open_wb =
        (\<lambda>p. if p = ''locked/out.pdf'' then Some (OSError ''Permission denied'') else None),
      writer_write =
        (\<lambda>p d. if p = ''full/out.pdf'' then Some (OSError ''No space left on device'')
               else None)\<rparr>"

definition demo_args :: args where
  "demo_args =
     \<lparr>arg_inputs = Some [''notes.txt'', ''a.pdf'', ''gone.pdf'', ''B.PDF'', ''x.doc''],
      arg_directory = None, arg_output = ''out.pdf'', arg_sort = ''name'',
      arg_reverse = False, arg_password = None, arg_strict = False\<rparr>"

section \<open>Properties\<close>

subsection \<open>The trace and the state along the loop\<close>

lemma writes_append: "writes (xs @ ys) = writes xs @ writes ys"
  by (induction xs rule: writes.induct) simp_all

lemma added_append: "added (xs @ ys) = added xs @ added ys"
  by (induction xs rule: added.induct) simp_all

lemma opened_append: "opened (xs @ ys) = opened xs @ opened ys"
  by (induction xs rule: opened.induct) simp_all

lemma opened_AddPage: "opened (map AddPage ps) = []"
  by (induction ps) simp_all

lemma writes_AddPage: "writes (map AddPage ps) = []"
  by (induction ps) simp_all

lemma added_AddPage: "added (map AddPage ps) = ps"
  by (induction ps) simp_all

lemma say_fields:
  "writer (say m s) = writer s"
  "pages_added (say m s) = pages_added s"
  "trace (say m s) = trace s @ [Print m]"
  by (simp_all add: say_def)

lemma add_pages_fields:
  "writer (add_pages ps s) = writer s @ ps"
  "pages_added (add_pages ps s) = pages_added s + length ps"
  "trace (add_pages ps s) = trace s @ map AddPage ps"
  by (induction ps arbitrary: s) simp_all

lemma grows_refl: "grows s [] s"
  by (simp add: grows_def)

lemma grows_say: "grows s ps s' \<Longrightarrow> grows s ps (say m s')"
  by (auto simp: grows_def say_fields opened_append writes_append added_append)

lemma grows_add_pages: "grows s ps (add_pages ps s)"
  by (simp add: grows_def add_pages_fields opened_AddPage writes_AddPage added_AddPage)

lemma grows_trans: "grows s ps s1 \<Longrightarrow> grows s1 qs s2 \<Longrightarrow> grows s (ps @ qs) s2"
  by (auto simp: grows_def opened_append writes_append added_append)


lemma read_pages_grows: "grows s (yielded (pages r)) (snd (read_pages r p s))"
  by (simp add: read_pages_def Let_def grows_add_pages grows_say split: option.split)

lemma try_body_grows:
  assumes "endswith (lower w p) ''.pdf''" and "path_exists w p"
  shows "grows s (appended w pw p) (snd (try_body w pw strict p s))"
  using assms
  by (simp add: try_body_def appended_def Let_def read_pages_grows grows_refl grows_say
           split: sum.split option.split)


lemma merge_file_grows: "grows s (appended w pw p) (snd (merge_file w pw strict p s))"
proof (cases "endswith (lower w p) ''.pdf'' \<and> path_exists w p")
  case True
  then have g: "grows s (appended w pw p) (snd (try_body w pw strict p s))"
    by (simp add: try_body_grows)
  show ?thesis
  proof (cases "try_body w pw strict p s")
    case (Pair r s1)
    with g True show ?thesis
      by (cases r) (simp_all add: merge_file_def Let_def grows_say)
  qed
next
  case False
  then show ?thesis
    by (auto simp: merge_file_def appended_def grows_refl grows_say)
qed

lemma merge_file_nonstrict: "fst (merge_file w pw False p s) = None"
  by (simp add: merge_file_def Let_def split: prod.split option.split)


lemma merge_loop_append:
  "merge_loop w pw strict (xs @ ys) s =
     (case merge_loop w pw strict xs s of
        (Some e, s1) \<Rightarrow> (Some e, s1)
      | (None, s1) \<Rightarrow> merge_loop w pw strict ys s1)"
proof (induction xs arbitrary: s)
  case Nil
  show ?case by simp
next
  case (Cons x xs)
  obtain r s1 where step: "merge_file w pw strict x s = (r, s1)"
    by (cases "merge_file w pw strict x s")
  show ?case
  proof (cases r)
    case None
    with step Cons.IH [of s1] show ?thesis by simp
  next
    case (Some e)
    with step show ?thesis by simp
  qed
qed


lemma merge_loop_grows:
  "\<exists>k\<le>length ps. (fst (merge_loop w pw strict ps s) = None \<longrightarrow> k = length ps) \<and>
      grows s (concat (map (appended w pw) (take k ps))) (snd (merge_loop w pw strict ps s))"
proof (induction ps arbitrary: s)
  case Nil
  show ?case by (simp add: grows_refl)
next
  case (Cons p ps)
  obtain r s1 where step: "merge_file w pw strict p s = (r, s1)"
    by (cases "merge_file w pw strict p s")
  have g1: "grows s (appended w pw p) s1"
    using merge_file_grows [of s w pw p strict] step by simp
  show ?case
  proof (cases r)
    case None
    then have loop: "merge_loop w pw strict (p # ps) s = merge_loop w pw strict ps s1"
      using step by simp
    from Cons.IH [of s1] obtain k where k1: "k \<le> length ps"
      and k2: "fst (merge_loop w pw strict ps s1) = None \<longrightarrow> k = length ps"
      and k3: "grows s1 (concat (map (appended w pw) (take k ps))) (snd (merge_loop w pw strict ps s1))"
      by (elim exE conjE)
    have a: "Suc k \<le> length (p # ps)"
      using k1 by simp
    have b: "fst (merge_loop w pw strict (p # ps) s) = None \<longrightarrow> Suc k = length (p # ps)"
      using k2 by (simp only: loop) simp
    have "concat (map (appended w pw) (take (Suc k) (p # ps))) =
            appended w pw p @ concat (map (appended w pw) (take k ps))"
      by simp
    then have c: "grows s (concat (map (appended w pw) (take (Suc k) (p # ps))))
            (snd (merge_loop w pw strict (p # ps) s))"
      using grows_trans [OF g1 k3] by (simp only: loop)
    from a b c show ?thesis by (intro exI [of _ "Suc k"] conjI)
  next
    case (Some e)
    then have loop: "merge_loop w pw strict (p # ps) s = (Some e, s1)"
      using step by simp
    have a: "Suc 0 \<le> length (p # ps)" by simp
    have b: "fst (merge_loop w pw strict (p # ps) s) = None \<longrightarrow> Suc 0 = length (p # ps)"
      unfolding loop by simp
    have c: "grows s (concat (map (appended w pw) (take (Suc 0) (p # ps))))
            (snd (merge_loop w pw strict (p # ps) s))"
      unfolding loop using g1 by simp
    from a b c show ?thesis by (intro exI [of _ "Suc 0"] conjI)
  qed
qed

lemma merge_loop_nonstrict: "fst (merge_loop w pw False ps s) = None"
proof (induction ps arbitrary: s)
  case Nil
  show ?case by simp
next
  case (Cons p ps)
  obtain s1 where "merge_file w pw False p s = (None, s1)"
    using merge_file_nonstrict [of w pw p s] by (cases "merge_file w pw False p s") simp
  with Cons.IH [of s1] show ?case by simp
qed

lemma merge_loop_steps:
  obtains k where "k \<le> length ps"
    and "fst (merge_loop w pw strict ps s) = None \<Longrightarrow> k = length ps"
    and "grows s (concat (map (appended w pw) (take k ps))) (snd (merge_loop w pw strict ps s))"
  using merge_loop_grows [where ps = ps and w = w and pw = pw and strict = strict and s = s]
  by (elim exE conjE) simp

lemma merge_loop_writes:
  "writes (trace (snd (merge_loop w pw strict ps s))) = writes (trace s)"
proof -
  obtain k where
    "grows s (concat (map (appended w pw) (take k ps))) (snd (merge_loop w pw strict ps s))"
    by (rule merge_loop_steps)
  then show ?thesis
    by (auto simp: grows_def writes_append)
qed

lemma merge_loop_opened:
  "opened (trace (snd (merge_loop w pw strict ps s))) = opened (trace s)"
proof -
  obtain k where
    "grows s (concat (map (appended w pw) (take k ps))) (snd (merge_loop w pw strict ps s))"
    by (rule merge_loop_steps)
  then show ?thesis
    by (auto simp: grows_def opened_append)
qed

lemma merge_loop_counter:
  "pages_added (snd (merge_loop w pw strict ps s)) - pages_added s =
     length (writer (snd (merge_loop w pw strict ps s))) - length (writer s)"
proof -
  obtain k where
    "grows s (concat (map (appended w pw) (take k ps))) (snd (merge_loop w pw strict ps s))"
    by (rule merge_loop_steps)
  then show ?thesis
    by (simp add: grows_def)
qed

lemma merge_loop_Cons_skip:
  assumes "merge_file w pw strict p s = (None, s1)"
  shows "merge_loop w pw strict (p # ps) s = merge_loop w pw strict ps s1"
  using assms by simp

lemma merge_loop_abort:
  assumes "fst (merge_loop w pw strict before s) = None"
    and "fst (merge_file w pw strict p (snd (merge_loop w pw strict before s))) = Some e"
  shows "fst (merge_loop w pw strict (before @ p # rest) s) = Some e"
proof -
  obtain s1 where s1: "merge_loop w pw strict before s = (None, s1)"
    using assms(1) by (cases "merge_loop w pw strict before s") simp
  obtain s2 where s2: "merge_file w pw strict p s1 = (Some e, s2)"
    using assms(2) s1 by (cases "merge_file w pw strict p s1") simp
  show ?thesis
    by (simp add: merge_loop_append s1 s2)
qed

lemma merge_pdfs_abort:
  assumes "fst (merge_loop w pw strict inputs init) = Some e"
  shows "fst (merge_pdfs w inputs out pw strict) = Inl e"
    and "opened (trace (snd (merge_pdfs w inputs out pw strict))) = []"
    and "writes (trace (snd (merge_pdfs w inputs out pw strict))) = []"
proof -
  obtain s where s: "merge_loop w pw strict inputs init = (Some e, s)"
    using assms by (cases "merge_loop w pw strict inputs init") simp
  have "writes (trace s) = writes (trace init)" and "opened (trace s) = opened (trace init)"
    using merge_loop_writes [of w pw strict inputs init]
      merge_loop_opened [of w pw strict inputs init] s by simp_all
  then have none: "writes (trace s) = []" "opened (trace s) = []"
    by (simp_all add: init_def)
  show "fst (merge_pdfs w inputs out pw strict) = Inl e"
    by (simp add: merge_pdfs_def s)
  show "opened (trace (snd (merge_pdfs w inputs out pw strict))) = []"
    by (simp add: merge_pdfs_def s none)
  show "writes (trace (snd (merge_pdfs w inputs out pw strict))) = []"
    by (simp add: merge_pdfs_def s none)
qed

lemma grows_init:
  assumes "grows init ps s"
  shows "writer s = ps" and "pages_added s = length ps"
    and "writes (trace s) = []" and "added (trace s) = ps" and "opened (trace s) = []"
  using assms by (auto simp: grows_def init_def)

lemma merge_loop_completed:
  assumes "fst (merge_loop w pw strict ps s) = None"
  shows "grows s (concat (map (appended w pw) ps)) (snd (merge_loop w pw strict ps s))"
  using merge_loop_grows [where ps = ps and w = w and pw = pw and strict = strict and s = s]
    assms
  by (elim exE conjE) simp

text \<open>The five ways in which a call of \<open>merge_pdfs\<close> ends.\<close>

lemma merge_pdfs_cases:
  obtains (aborted) e s0 k where
      "merge_loop w pw strict inputs init = (Some e, s0)"
      "merge_pdfs w inputs out pw strict = (Inl e, s0)"
      "k \<le> length inputs"
      "grows init (concat (map (appended w pw) (take k inputs))) s0"
  | (no_pages) s0 where
      "merge_loop w pw strict inputs init = (None, s0)"
      "pages_added s0 = 0"
      "merge_pdfs w inputs out pw strict =
         (Inl (RuntimeError ''No pages added. Check inputs.''), s0)"
      "grows init (concat (map (appended w pw) inputs)) s0"
  | (open_failed) e s0 where
      "merge_loop w pw strict inputs init = (None, s0)"
      "pages_added s0 \<noteq> 0"
      "open_wb w out = Some e"
      "merge_pdfs w inputs out pw strict = (Inl e, s0)"
      "grows init (concat (map (appended w pw) inputs)) s0"
  | (write_failed) e s0 where
      "merge_loop w pw strict inputs init = (None, s0)"
      "pages_added s0 \<noteq> 0"
      "open_wb w out = None"
      "writer_write w out (writer s0) = Some e"
      "merge_pdfs w inputs out pw strict = (Inl e, s0\<lparr>trace := trace s0 @ [OpenFile out]\<rparr>)"
      "grows init (concat (map (appended w pw) inputs)) s0"
  | (written) s0 where
      "merge_loop w pw strict inputs init = (None, s0)"
      "pages_added s0 \<noteq> 0"
      "open_wb w out = None"
      "writer_write w out (writer s0) = None"
      "merge_pdfs w inputs out pw strict =
         (Inr (pages_added s0),
          s0\<lparr>trace := trace s0 @
                [OpenFile out, WriteFile out (writer s0),
                 Print (''[DONE] Wrote '' @ out @ '' with '' @ str_nat (pages_added s0)
                        @ '' pages.'')]\<rparr>)"
      "grows init (concat (map (appended w pw) inputs)) s0"
proof -
  obtain r s0 where loop: "merge_loop w pw strict inputs init = (r, s0)"
    by (cases "merge_loop w pw strict inputs init")
  show ?thesis
  proof (cases r)
    case (Some e)
    obtain k where k: "k \<le> length inputs"
      and "grows init (concat (map (appended w pw) (take k inputs)))
             (snd (merge_loop w pw strict inputs init))"
      by (rule merge_loop_steps)
    then have g: "grows init (concat (map (appended w pw) (take k inputs))) s0"
      by (simp add: loop)
    have a: "merge_loop w pw strict inputs init = (Some e, s0)"
      using loop Some by simp
    have b: "merge_pdfs w inputs out pw strict = (Inl e, s0)"
      by (simp add: merge_pdfs_def a)
    show ?thesis by (rule aborted [OF a b k g])
  next
    case None
    have a: "merge_loop w pw strict inputs init = (None, s0)"
      using loop None by simp
    have g: "grows init (concat (map (appended w pw) inputs)) s0"
      using merge_loop_completed [of w pw strict inputs init] a by simp
    show ?thesis
    proof (cases "pages_added s0 = 0")
      case True
      have "merge_pdfs w inputs out pw strict =
              (Inl (RuntimeError ''No pages added. Check inputs.''), s0)"
        using True by (simp add: merge_pdfs_def a)
      with a True show ?thesis using g by (rule no_pages)
    next
      case False
      show ?thesis
      proof (cases "open_wb w out")
        case (Some e)
        have "merge_pdfs w inputs out pw strict = (Inl e, s0)"
          using False Some by (simp add: merge_pdfs_def a)
        with a False Some show ?thesis using g by (rule open_failed)
      next
        case op: None
        show ?thesis
        proof (cases "writer_write w out (writer s0)")
          case (Some e)
          have "merge_pdfs w inputs out pw strict =
                  (Inl e, s0\<lparr>trace := trace s0 @ [OpenFile out]\<rparr>)"
            using False op Some by (simp add: merge_pdfs_def a)
          with a False op Some show ?thesis using g by (rule write_failed)
        next
          case wr: None
          have "merge_pdfs w inputs out pw strict =
             (Inr (pages_added s0),
              s0\<lparr>trace := trace s0 @
                    [OpenFile out, WriteFile out (writer s0),
                     Print (''[DONE] Wrote '' @ out @ '' with '' @ str_nat (pages_added s0)
                            @ '' pages.'')]\<rparr>)"
            using False op wr by (simp add: merge_pdfs_def a)
          with a False op wr show ?thesis using g by (rule written)
        qed
      qed
    qed
  qed
qed

lemma merge_file_valid:
  assumes "valid_plain w p"
  shows "fst (merge_file w pw strict p s) = None" and "appended w pw p = doc_pages w p"
  using assms
  by (auto simp: valid_plain_def merge_file_def try_body_def read_pages_def appended_def
        doc_pages_def Let_def split: sum.splits)

lemma merge_loop_valid:
  assumes "list_all (valid_plain w) ps"
  shows "fst (merge_loop w pw strict ps s) = None"
  using assms
proof (induction ps arbitrary: s)
  case Nil
  show ?case by simp
next
  case (Cons p ps)
  then have "fst (merge_file w pw strict p s) = None"
    by (simp add: merge_file_valid)
  then obtain s1 where "merge_file w pw strict p s = (None, s1)"
    by (cases "merge_file w pw strict p s") simp
  with Cons show ?case by simp
qed

lemma appended_valid:
  assumes "list_all (valid_plain w) ps"
  shows "map (appended w pw) ps = map (doc_pages w) ps"
  using assms by (induction ps) (simp_all add: merge_file_valid)

lemma after_write_none: "writes t = [] \<Longrightarrow> after_write t = []"
  by (induction t rule: after_write.induct) simp_all

lemma after_write_first:
  "writes t = [] \<Longrightarrow> after_write (t @ WriteFile f d # r) = r"
  by (induction t rule: after_write.induct) simp_all

lemma appended_cases:
  "appended w pw p = [] \<or> appended w pw p = doc_pages w p"
  by (simp add: appended_def doc_pages_def split: sum.split option.split)

lemma appended_processed_ok:
  "processed_ok w pw p \<Longrightarrow> appended w pw p = doc_pages w p"
  by (auto simp: processed_ok_def appended_def doc_pages_def split: sum.splits)

lemma after_write_written:
  assumes "writes t = []"
  shows "after_write (t @ [OpenFile f, WriteFile f d, e]) = [e]"
proof -
  have "writes (t @ [OpenFile f]) = []"
    using assms by (simp add: writes_append)
  then have "after_write ((t @ [OpenFile f]) @ WriteFile f d # [e]) = [e]"
    by (rule after_write_first)
  then show ?thesis by simp
qed

lemma lower_latin_ascii: "ascii s \<Longrightarrow> latin_lower s = ascii_lower s"
  by (induction s rule: latin_lower.induct) (simp_all add: ascii_def ascii_lower_def)

lemma lower_on_ascii_demo: "lower_on_ascii demo_world"
  by (simp add: lower_on_ascii_def demo_world_def lower_latin_ascii)

subsection \<open>Sorting\<close>

lemma py_sorted_stable:
  "filter (\<lambda>x. key x = k) (py_sorted key reverse xs) = filter (\<lambda>x. key x = k) xs"
proof (cases reverse)
  case True
  have "filter (\<lambda>x. key x = k) (rev (sort_key key (rev xs))) =
          rev (filter (\<lambda>x. key x = k) (sort_key key (rev xs)))"
    by (simp add: rev_filter)
  also have "\<dots> = rev (filter (\<lambda>x. key x = k) (rev xs))"
    by (simp only: sort_key_stable)
  also have "\<dots> = filter (\<lambda>x. key x = k) xs"
    by (simp add: rev_filter)
  finally show ?thesis using True by (simp add: py_sorted_def)
next
  case False
  then show ?thesis by (simp add: py_sorted_def sort_key_stable)
qed

lemma py_sorted_ordered:
  "sorted (map key (if reverse then rev (py_sorted key reverse xs) else py_sorted key reverse xs))"
  by (simp add: py_sorted_def)

lemma py_sorted_same_elements:
  "length (py_sorted key reverse xs) = length xs \<and> set (py_sorted key reverse xs) = set xs"
  by (simp add: py_sorted_def)

subsection \<open>Missing input files\<close>

text \<open>
  Claim C6. An input whose name ends in \<^verbatim>\<open>.pdf\<close> and that does not exist makes
  \<^verbatim>\<open>merge_pdfs\<close> print a warning and go on with the next file, whatever the strict flag:
  the iteration raises nothing, leaves the writer and the counter as they are, and the loop
  continues with the rest of the list.
\<close>

theorem missing_input_skipped:
  assumes "endswith (lower w path) ''.pdf''" and "\<not> path_exists w path"
  shows "merge_file w password strict path s =
           (None, say (''[WARN] Not found: '' @ path) s) \<and>
         merge_loop w password strict (path # rest) s =
           merge_loop w password strict rest (say (''[WARN] Not found: '' @ path) s) \<and>
         appended w password path = []"
  using assms by (simp add: merge_file_def appended_def)

theorem missing_input_skipped_witness:
  "endswith (lower demo_world ''gone.pdf'') ''.pdf'' \<and> \<not> path_exists demo_world ''gone.pdf'' \<and>
   merge_file demo_world None True ''gone.pdf'' init =
     (None, say (''[WARN] Not found: '' @ ''gone.pdf'') init) \<and>
   merge_loop demo_world None True (''gone.pdf'' # [''a.pdf'']) init =
     merge_loop demo_world None True [''a.pdf'']
       (say (''[WARN] Not found: '' @ ''gone.pdf'') init) \<and>
   fst (merge_pdfs demo_world [''gone.pdf'', ''a.pdf''] ''out.pdf'' None True) = Inr 2"
proof -
  have h1: "endswith (lower demo_world ''gone.pdf'') ''.pdf''" by code_simp
  have h2: "\<not> path_exists demo_world ''gone.pdf''" by code_simp
  have h3: "fst (merge_pdfs demo_world [''gone.pdf'', ''a.pdf''] ''out.pdf'' None True) = Inr 2"
    by code_simp
  from missing_input_skipped [OF h1 h2, of None True init "[''a.pdf'']"] h1 h2 h3
  show ?thesis by (simp only: simp_thms)
qed

subsection \<open>\<^verbatim>\<open>main\<close>: no candidate files\<close>

text \<open>
  Claim C9. When the list of candidate files is empty after collection and filtering, in
  explicit-list mode as in directory mode, the process ends with \<^verbatim>\<open>SystemExit\<close> and a
  message, so with a non-zero status; nothing is printed or written and \<^verbatim>\<open>merge_pdfs\<close> is
  not called.
\<close>

theorem no_candidates_exit:
  assumes "candidates w a = Inr []"
  shows "main w a = (SystemExit ''No PDF files found to merge.'', [], []) \<and>
         exit_status (fst (main w a)) \<noteq> 0"
  using assms by (simp add: main_def)

theorem no_candidates_exit_witness:
  "candidates demo_world (demo_args\<lparr>arg_inputs := None, arg_directory := Some ''empty''\<rparr>)
     = Inr [] \<and>
   main demo_world (demo_args\<lparr>arg_inputs := None, arg_directory := Some ''empty''\<rparr>) =
     (SystemExit ''No PDF files found to merge.'', [], []) \<and>
   candidates demo_world (demo_args\<lparr>arg_inputs := Some [''notes.txt'']\<rparr>) = Inr [] \<and>
   main demo_world (demo_args\<lparr>arg_inputs := Some [''notes.txt'']\<rparr>) =
     (SystemExit ''No PDF files found to merge.'', [], [])"
proof -
  have h1: "candidates demo_world
              (demo_args\<lparr>arg_inputs := None, arg_directory := Some ''empty''\<rparr>) = Inr []"
    by code_simp
  have h2: "candidates demo_world (demo_args\<lparr>arg_inputs := Some [''notes.txt'']\<rparr>) = Inr []"
    by code_simp
  from no_candidates_exit [OF h1] no_candidates_exit [OF h2] h1 h2
  show ?thesis by (simp only: simp_thms)
qed

subsection \<open>No pages added\<close>

text \<open>
  Claim C3. Whatever the inputs, the password and the strict flag: when the loop over the
  inputs ends with no page appended, \<^verbatim>\<open>merge_pdfs\<close> raises the \<^verbatim>\<open>RuntimeError\<close>
  "No pages added. Check inputs." and no file is opened or written, so the output path is
  left as it was.
\<close>

theorem no_pages_no_output:
  assumes "merge_loop w password strict inputs init = (None, s)" and "pages_added s = 0"
  shows "merge_pdfs w inputs output password strict =
           (Inl (RuntimeError ''No pages added. Check inputs.''), s) \<and>
         opened (trace s) = [] \<and> writes (trace s) = [] \<and> writer s = []"
proof -
  have "writes (trace s) = writes (trace init)"
    using merge_loop_writes [of w password strict inputs init] assms(1) by simp
  then have w: "writes (trace s) = []"
    by (simp add: init_def)
  have "opened (trace s) = opened (trace init)"
    using merge_loop_opened [of w password strict inputs init] assms(1) by simp
  then have o: "opened (trace s) = []"
    by (simp add: init_def)
  have "pages_added s - pages_added init = length (writer s) - length (writer init)"
    using merge_loop_counter [of w password strict inputs init] assms(1) by simp
  with assms(2) have e: "writer s = []"
    by (simp add: init_def)
  from assms w o e show ?thesis by (simp add: merge_pdfs_def)
qed

theorem no_pages_no_output_witness:
  "merge_loop demo_world None False [''enc.pdf'', ''gone.pdf'', ''broken.pdf''] init =
     (None, \<lparr>writer = [], pages_added = 0,
             trace = [Print ''[WARN] Encrypted PDF skipped (no password): enc.pdf'',
                      Print ''[WARN] Not found: gone.pdf'',
                      Print ''[ERROR] Failed to read broken.pdf: EOF marker not found'']\<rparr>) \<and>
   fst (merge_pdfs demo_world [''enc.pdf'', ''gone.pdf'', ''broken.pdf''] ''out.pdf'' None False) =
     Inl (RuntimeError ''No pages added. Check inputs.'') \<and>
   opened (trace (snd (merge_pdfs demo_world [''enc.pdf'', ''gone.pdf'', ''broken.pdf'']
                         ''out.pdf'' None False))) = [] \<and>
   writes (trace (snd (merge_pdfs demo_world [''enc.pdf'', ''gone.pdf'', ''broken.pdf'']
                         ''out.pdf'' None False))) = []"
proof -
  let ?s = "\<lparr>writer = [], pages_added = 0,
             trace = [Print ''[WARN] Encrypted PDF skipped (no password): enc.pdf'',
                      Print ''[WARN] Not found: gone.pdf'',
                      Print ''[ERROR] Failed to read broken.pdf: EOF marker not found'']\<rparr>"
  have h1: "merge_loop demo_world None False [''enc.pdf'', ''gone.pdf'', ''broken.pdf''] init
              = (None, ?s)"
    by code_simp
  have h2: "pages_added ?s = 0" by simp
  from no_pages_no_output [OF h1 h2, of "''out.pdf''"] h1
  show ?thesis by simp
qed

subsection \<open>Sorting by name\<close>

text \<open>
  Claim C7. With the key \<^verbatim>\<open>name\<close>, \<^verbatim>\<open>sort_files\<close> returns a rearrangement of the files
  ordered by the lower-cased base name, ascending, or descending with \<^verbatim>\<open>reverse\<close>; files
  with the same key keep their original relative order in both directions. This holds for
  every \<^verbatim>\<open>str.lower\<close>. Where \<^verbatim>\<open>str.lower\<close> is the ASCII table on ASCII strings, the list
  \<^verbatim>\<open>["b.pdf", "A.pdf", "c.pdf"]\<close> is sorted to \<^verbatim>\<open>["A.pdf", "b.pdf", "c.pdf"]\<close>, and to
  \<^verbatim>\<open>["c.pdf", "b.pdf", "A.pdf"]\<close> with \<^verbatim>\<open>reverse\<close>.
\<close>

theorem sort_by_name:
  "(\<exists>ys. sort_files w files ''name'' reverse = Inr ys \<and>
         length ys = length files \<and> set ys = set files \<and>
         sorted (map (\<lambda>p. lower w (basename p)) (if reverse then rev ys else ys)) \<and>
         (\<forall>k. filter (\<lambda>p. lower w (basename p) = k) ys =
              filter (\<lambda>p. lower w (basename p) = k) files)) \<and>
   (lower_on_ascii w \<longrightarrow>
      sort_files w [''b.pdf'', ''A.pdf'', ''c.pdf''] ''name'' False =
        Inr [''A.pdf'', ''b.pdf'', ''c.pdf''] \<and>
      sort_files w [''b.pdf'', ''A.pdf'', ''c.pdf''] ''name'' True =
        Inr [''c.pdf'', ''b.pdf'', ''A.pdf''])"
proof -
  let ?key = "\<lambda>p. lower w (basename p)"
  let ?ys = "py_sorted ?key reverse files"
  have res: "sort_files w files ''name'' reverse = Inr ?ys"
    by (simp add: sort_files_def)
  have len: "length ?ys = length files" and elems: "set ?ys = set files"
    using py_sorted_same_elements [of ?key reverse files] by simp_all
  have ord: "sorted (map ?key (if reverse then rev ?ys else ?ys))"
    by (rule py_sorted_ordered)
  have stab: "\<forall>k. filter (\<lambda>p. ?key p = k) ?ys = filter (\<lambda>p. ?key p = k) files"
    by (simp only: py_sorted_stable) simp
  have general: "\<exists>ys. sort_files w files ''name'' reverse = Inr ys \<and>
         length ys = length files \<and> set ys = set files \<and>
         sorted (map ?key (if reverse then rev ys else ys)) \<and>
         (\<forall>k. filter (\<lambda>p. ?key p = k) ys = filter (\<lambda>p. ?key p = k) files)"
    using res len elems ord stab by (intro exI [of _ ?ys] conjI)
  have examples: "sort_files w [''b.pdf'', ''A.pdf'', ''c.pdf''] ''name'' False =
        Inr [''A.pdf'', ''b.pdf'', ''c.pdf''] \<and>
      sort_files w [''b.pdf'', ''A.pdf'', ''c.pdf''] ''name'' True =
        Inr [''c.pdf'', ''b.pdf'', ''A.pdf'']"
    if low: "lower_on_ascii w"
  proof -
    have asc: "ascii ''b.pdf''" "ascii ''A.pdf''" "ascii ''c.pdf''"
      by code_simp+
    have base: "basename ''b.pdf'' = ''b.pdf''" "basename ''A.pdf'' = ''A.pdf''"
      "basename ''c.pdf'' = ''c.pdf''"
      by code_simp+
    have tab: "ascii_lower ''b.pdf'' = ''b.pdf''" "ascii_lower ''A.pdf'' = ''a.pdf''"
      "ascii_lower ''c.pdf'' = ''c.pdf''"
      by code_simp+
    have kb: "lower w (basename ''b.pdf'') = ''b.pdf''"
      and ka: "lower w (basename ''A.pdf'') = ''a.pdf''"
      and kc: "lower w (basename ''c.pdf'') = ''c.pdf''"
      using low asc by (simp_all only: lower_on_ascii_def base tab)
    have ab: "''a.pdf'' \<le> ''b.pdf''" and bc: "''b.pdf'' \<le> ''c.pdf''"
      and ac: "''a.pdf'' \<le> ''c.pdf''" and ba: "\<not> ''b.pdf'' \<le> ''a.pdf''"
      and cb: "\<not> ''c.pdf'' \<le> ''b.pdf''" and ca: "\<not> ''c.pdf'' \<le> ''a.pdf''"
      by code_simp+
    show ?thesis
      by (simp add: sort_files_def py_sorted_def ka kb kc ab bc ac ba cb ca)
  qed
  from general examples show ?thesis by (intro conjI impI) simp_all
qed

theorem sort_by_name_witness:
  "lower_on_ascii demo_world \<and>
   sort_files demo_world [''b.pdf'', ''A.pdf'', ''c.pdf''] ''name'' False =
     Inr [''A.pdf'', ''b.pdf'', ''c.pdf''] \<and>
   sort_files demo_world [''b.pdf'', ''A.pdf'', ''c.pdf''] ''name'' True =
     Inr [''c.pdf'', ''b.pdf'', ''A.pdf''] \<and>
   sort_files demo_world [''x/B.pdf'', ''a.pdf'', ''y/b.pdf'', ''A.PDF''] ''name'' False =
     Inr [''a.pdf'', ''A.PDF'', ''x/B.pdf'', ''y/b.pdf''] \<and>
   sort_files demo_world [''x/B.pdf'', ''a.pdf'', ''y/b.pdf'', ''A.PDF''] ''name'' True =
     Inr [''x/B.pdf'', ''y/b.pdf'', ''a.pdf'', ''A.PDF''] \<and>
   sort_files demo_world [[CHR 0xC3, CHR 0x89] @ ''.pdf'', [CHR 0xC3, CHR 0xA4] @ ''.pdf'']
       ''name'' False =
     Inr [[CHR 0xC3, CHR 0xA4] @ ''.pdf'', [CHR 0xC3, CHR 0x89] @ ''.pdf'']"
proof -
  have up: "sort_files demo_world [''x/B.pdf'', ''a.pdf'', ''y/b.pdf'', ''A.PDF''] ''name'' False =
              Inr [''a.pdf'', ''A.PDF'', ''x/B.pdf'', ''y/b.pdf'']"
    by code_simp
  have down: "sort_files demo_world [''x/B.pdf'', ''a.pdf'', ''y/b.pdf'', ''A.PDF''] ''name'' True =
                Inr [''x/B.pdf'', ''y/b.pdf'', ''a.pdf'', ''A.PDF'']"
    by code_simp
  have accents: "sort_files demo_world
       [[CHR 0xC3, CHR 0x89] @ ''.pdf'', [CHR 0xC3, CHR 0xA4] @ ''.pdf''] ''name'' False =
     Inr [[CHR 0xC3, CHR 0xA4] @ ''.pdf'', [CHR 0xC3, CHR 0x89] @ ''.pdf'']"
    by code_simp
  note low = lower_on_ascii_demo
  from sort_by_name [where w = demo_world and files = "[]" and reverse = False,
      THEN conjunct2, THEN mp, OF low]
  have "sort_files demo_world [''b.pdf'', ''A.pdf'', ''c.pdf''] ''name'' False =
     Inr [''A.pdf'', ''b.pdf'', ''c.pdf''] \<and>
   sort_files demo_world [''b.pdf'', ''A.pdf'', ''c.pdf''] ''name'' True =
     Inr [''c.pdf'', ''b.pdf'', ''A.pdf'']" .
  with low up down accents show ?thesis by (intro conjI) (elim conjE; assumption)+
qed

subsection \<open>\<^verbatim>\<open>main\<close>: explicit list of inputs\<close>

text \<open>
  Claim C8. With an explicit list of inputs, the list of files that \<^verbatim>\<open>main\<close> hands to
  \<^verbatim>\<open>merge_pdfs\<close> is the given list without the entries whose lower-cased name does not end
  in \<^verbatim>\<open>.pdf\<close>, in the given order: it depends neither on the file system (no check that a
  file exists) nor on the sort options (no sorting).
\<close>

theorem explicit_list_filtered:
  assumes "arg_inputs a = Some xs" and "xs \<noteq> []"
  shows "candidates w a = Inr (filter (\<lambda>f. endswith (lower w f) ''.pdf'') xs) \<and>
         snd (snd (main w a)) =
           (if filter (\<lambda>f. endswith (lower w f) ''.pdf'') xs = [] then []
            else [filter (\<lambda>f. endswith (lower w f) ''.pdf'') xs])"
proof -
  from assms obtain y ys where xs: "xs = y # ys"
    by (cases xs) simp_all
  have c: "candidates w a = Inr (filter (\<lambda>f. endswith (lower w f) ''.pdf'') xs)"
    using assms(1) by (simp add: candidates_def xs)
  show ?thesis
    unfolding main_def c by (simp split: prod.split sum.split)
qed

theorem explicit_list_filtered_witness:
  "arg_inputs demo_args = Some [''notes.txt'', ''a.pdf'', ''gone.pdf'', ''B.PDF'', ''x.doc''] \<and>
   candidates demo_world demo_args = Inr [''a.pdf'', ''gone.pdf'', ''B.PDF''] \<and>
   snd (snd (main demo_world demo_args)) = [[''a.pdf'', ''gone.pdf'', ''B.PDF'']]"
proof -
  have h1: "arg_inputs demo_args =
              Some [''notes.txt'', ''a.pdf'', ''gone.pdf'', ''B.PDF'', ''x.doc'']"
    by (simp add: demo_args_def)
  have h2: "[''notes.txt'', ''a.pdf'', ''gone.pdf'', ''B.PDF'', ''x.doc''] \<noteq> []"
    by simp
  have f: "filter (\<lambda>f. endswith (lower demo_world f) ''.pdf'')
             [''notes.txt'', ''a.pdf'', ''gone.pdf'', ''B.PDF'', ''x.doc''] =
           [''a.pdf'', ''gone.pdf'', ''B.PDF'']"
    by code_simp
  from explicit_list_filtered [OF h1 h2, of demo_world] h1
  show ?thesis unfolding f by simp
qed

subsection \<open>Encrypted inputs\<close>

text \<open>
  Claim C4. When the loop comes to an existing \<^verbatim>\<open>.pdf\<close> file that opens as an encrypted
  document and no password was given: without the strict flag a warning is printed, the
  file is skipped and the loop goes on with the rest; with the strict flag the iteration
  raises the \<^verbatim>\<open>RuntimeError\<close> "Encrypted PDF requires password: ...", and a merge whose
  earlier inputs did not abort ends with that error and neither opens nor writes a file.
\<close>

theorem encrypted_without_password:
  assumes "endswith (lower w path) ''.pdf''" and "path_exists w path"
    and "PdfReader w path = Inr reader" and "is_encrypted reader"
    and "\<not> truthy password"
  shows "merge_loop w password False (path # rest) s =
           merge_loop w password False rest
             (say (''[WARN] Encrypted PDF skipped (no password): '' @ path) s) \<and>
         merge_file w password True path s =
           (Some (RuntimeError (''Encrypted PDF requires password: '' @ path)),
            say (''[ERROR] Failed to read '' @ path @ '': '' @
                 ''Encrypted PDF requires password: '' @ path)
              (say (''[WARN] Encrypted PDF skipped (no password): '' @ path) s)) \<and>
         (fst (merge_loop w password True before init) = None \<longrightarrow>
            fst (merge_pdfs w (before @ path # rest) out password True) =
              Inl (RuntimeError (''Encrypted PDF requires password: '' @ path)) \<and>
            opened (trace (snd (merge_pdfs w (before @ path # rest) out password True)))
              = [] \<and>
            writes (trace (snd (merge_pdfs w (before @ path # rest) out password True)))
              = [])"
proof -
  have soft: "merge_file w password False path s =
      (None, say (''[WARN] Encrypted PDF skipped (no password): '' @ path) s)"
    using assms by (simp add: merge_file_def try_body_def)
  have hard: "\<And>s. merge_file w password True path s =
      (Some (RuntimeError (''Encrypted PDF requires password: '' @ path)),
       say (''[ERROR] Failed to read '' @ path @ '': '' @
            ''Encrypted PDF requires password: '' @ path)
         (say (''[WARN] Encrypted PDF skipped (no password): '' @ path) s))"
    using assms by (simp add: merge_file_def try_body_def)
  have whole: "fst (merge_pdfs w (before @ path # rest) out password True) =
              Inl (RuntimeError (''Encrypted PDF requires password: '' @ path)) \<and>
            opened (trace (snd (merge_pdfs w (before @ path # rest) out password True)))
              = [] \<and>
            writes (trace (snd (merge_pdfs w (before @ path # rest) out password True)))
              = []"
    if "fst (merge_loop w password True before init) = None"
  proof -
    have "fst (merge_loop w password True (before @ path # rest) init) =
            Some (RuntimeError (''Encrypted PDF requires password: '' @ path))"
      using that by (rule merge_loop_abort) (simp add: hard)
    from merge_pdfs_abort [OF this] show ?thesis by simp
  qed
  from merge_loop_Cons_skip [OF soft] hard whole show ?thesis
    by (intro conjI impI) simp_all
qed

theorem encrypted_without_password_witness:
  "endswith (lower demo_world ''enc.pdf'') ''.pdf'' \<and> path_exists demo_world ''enc.pdf'' \<and>
   PdfReader demo_world ''enc.pdf'' = Inr (locked_doc ''secret'' [Page 4]) \<and>
   is_encrypted (locked_doc ''secret'' [Page 4]) \<and> \<not> truthy None \<and>
   merge_loop demo_world None False (''enc.pdf'' # [''B.PDF'']) init =
     merge_loop demo_world None False [''B.PDF'']
       (say (''[WARN] Encrypted PDF skipped (no password): '' @ ''enc.pdf'') init) \<and>
   fst (merge_loop demo_world None True [''a.pdf''] init) = None \<and>
   fst (merge_pdfs demo_world ([''a.pdf''] @ ''enc.pdf'' # [''B.PDF'']) ''out.pdf'' None True) =
     Inl (RuntimeError (''Encrypted PDF requires password: '' @ ''enc.pdf'')) \<and>
   opened (trace (snd (merge_pdfs demo_world ([''a.pdf''] @ ''enc.pdf'' # [''B.PDF''])
                         ''out.pdf'' None True))) = [] \<and>
   writes (trace (snd (merge_pdfs demo_world ([''a.pdf''] @ ''enc.pdf'' # [''B.PDF''])
                         ''out.pdf'' None True))) = []"
proof -
  have h1: "endswith (lower demo_world ''enc.pdf'') ''.pdf''" by code_simp
  have h2: "path_exists demo_world ''enc.pdf''" by code_simp
  have h3: "PdfReader demo_world ''enc.pdf'' = Inr (locked_doc ''secret'' [Page 4])"
    by (simp add: demo_world_def)
  have h4: "is_encrypted (locked_doc ''secret'' [Page 4])"
    by (simp add: locked_doc_def)
  have h5: "\<not> truthy None" by simp
  have h6: "fst (merge_loop demo_world None True [''a.pdf''] init) = None" by code_simp
  note t = encrypted_without_password [OF h1 h2 h3 h4 h5,
      where rest = "[''B.PDF'']" and s = init and before = "[''a.pdf'']" and out = "''out.pdf''"]
  from t h1 h2 h3 h4 h5 h6 show ?thesis by (simp only: simp_thms)
qed

text \<open>
  Claim C5. When the loop comes to an existing \<^verbatim>\<open>.pdf\<close> file that opens as an encrypted
  document and a password was given, the outcome is decided by \<^verbatim>\<open>decrypt\<close>: if it returns,
  the page loop runs; if it raises, then without the strict flag a warning is printed, no
  page of the file is appended and the loop goes on with the rest, and with the strict flag
  the iteration raises that same exception, and a merge whose earlier inputs did not abort
  ends with it and neither opens nor writes a file.
\<close>

theorem decryption_failure:
  assumes "endswith (lower w path) ''.pdf''" and "path_exists w path"
    and "PdfReader w path = Inr reader" and "is_encrypted reader"
    and "pw \<noteq> []"
  shows "(decrypt reader pw = None \<longrightarrow>
            try_body w (Some pw) strict path s = read_pages reader path s) \<and>
         (\<forall>e. decrypt reader pw = Some e \<longrightarrow>
            merge_loop w (Some pw) False (path # rest) s =
              merge_loop w (Some pw) False rest
                (say (''[WARN] Could not decrypt '' @ path @ '': '' @ str_exn e) s) \<and>
            appended w (Some pw) path = [] \<and>
            merge_file w (Some pw) True path s =
              (Some e,
               say (''[ERROR] Failed to read '' @ path @ '': '' @ str_exn e)
                 (say (''[WARN] Could not decrypt '' @ path @ '': '' @ str_exn e) s)) \<and>
            (fst (merge_loop w (Some pw) True before init) = None \<longrightarrow>
               fst (merge_pdfs w (before @ path # rest) out (Some pw) True) = Inl e \<and>
               opened (trace (snd (merge_pdfs w (before @ path # rest) out (Some pw) True)))
                 = [] \<and>
               writes (trace (snd (merge_pdfs w (before @ path # rest) out (Some pw) True)))
                 = []))"
proof (intro conjI allI impI)
  assume "decrypt reader pw = None"
  with assms show "try_body w (Some pw) strict path s = read_pages reader path s"
    by (simp add: try_body_def)
next
  fix e
  assume e: "decrypt reader pw = Some e"
  have soft: "merge_file w (Some pw) False path s =
      (None, say (''[WARN] Could not decrypt '' @ path @ '': '' @ str_exn e) s)"
    using assms e by (simp add: merge_file_def try_body_def)
  have hard: "\<And>s. merge_file w (Some pw) True path s =
      (Some e,
       say (''[ERROR] Failed to read '' @ path @ '': '' @ str_exn e)
         (say (''[WARN] Could not decrypt '' @ path @ '': '' @ str_exn e) s))"
    using assms e by (simp add: merge_file_def try_body_def)
  show "merge_loop w (Some pw) False (path # rest) s =
          merge_loop w (Some pw) False rest
            (say (''[WARN] Could not decrypt '' @ path @ '': '' @ str_exn e) s)"
    by (rule merge_loop_Cons_skip [OF soft])
  show "appended w (Some pw) path = []"
    using assms e by (simp add: appended_def)
  show "merge_file w (Some pw) True path s =
      (Some e,
       say (''[ERROR] Failed to read '' @ path @ '': '' @ str_exn e)
         (say (''[WARN] Could not decrypt '' @ path @ '': '' @ str_exn e) s))"
    by (rule hard)
  assume before: "fst (merge_loop w (Some pw) True before init) = None"
  have ab: "fst (merge_loop w (Some pw) True (before @ path # rest) init) = Some e"
    using before by (rule merge_loop_abort) (simp add: hard)
  from merge_pdfs_abort [OF ab]
  show "fst (merge_pdfs w (before @ path # rest) out (Some pw) True) = Inl e"
    and "opened (trace (snd (merge_pdfs w (before @ path # rest) out (Some pw) True))) = []"
    and "writes (trace (snd (merge_pdfs w (before @ path # rest) out (Some pw) True))) = []"
    by simp_all
qed

theorem decryption_failure_witness:
  "endswith (lower demo_world ''enc.pdf'') ''.pdf'' \<and> path_exists demo_world ''enc.pdf'' \<and>
   PdfReader demo_world ''enc.pdf'' = Inr (locked_doc ''secret'' [Page 4]) \<and>
   is_encrypted (locked_doc ''secret'' [Page 4]) \<and> ''bad'' \<noteq> [] \<and>
   decrypt (locked_doc ''secret'' [Page 4]) ''bad'' = Some (LibraryError ''wrong password'') \<and>
   merge_loop demo_world (Some ''bad'') False (''enc.pdf'' # [''B.PDF'']) init =
     merge_loop demo_world (Some ''bad'') False [''B.PDF'']
       (say (''[WARN] Could not decrypt '' @ ''enc.pdf'' @ '': '' @
             str_exn (LibraryError ''wrong password'')) init) \<and>
   appended demo_world (Some ''bad'') ''enc.pdf'' = [] \<and>
   fst (merge_loop demo_world (Some ''bad'') True [''a.pdf''] init) = None \<and>
   fst (merge_pdfs demo_world ([''a.pdf''] @ ''enc.pdf'' # [''B.PDF'']) ''out.pdf''
          (Some ''bad'') True) = Inl (LibraryError ''wrong password'') \<and>
   opened (trace (snd (merge_pdfs demo_world ([''a.pdf''] @ ''enc.pdf'' # [''B.PDF''])
                         ''out.pdf'' (Some ''bad'') True))) = [] \<and>
   writes (trace (snd (merge_pdfs demo_world ([''a.pdf''] @ ''enc.pdf'' # [''B.PDF''])
                         ''out.pdf'' (Some ''bad'') True))) = []"
proof -
  have h1: "endswith (lower demo_world ''enc.pdf'') ''.pdf''" by code_simp
  have h2: "path_exists demo_world ''enc.pdf''" by code_simp
  have h3: "PdfReader demo_world ''enc.pdf'' = Inr (locked_doc ''secret'' [Page 4])"
    by (simp add: demo_world_def)
  have h4: "is_encrypted (locked_doc ''secret'' [Page 4])"
    by (simp add: locked_doc_def)
  have h5: "''bad'' \<noteq> []" by simp
  have h6: "decrypt (locked_doc ''secret'' [Page 4]) ''bad'' =
              Some (LibraryError ''wrong password'')"
    by (simp add: locked_doc_def)
  have h7: "fst (merge_loop demo_world (Some ''bad'') True [''a.pdf''] init) = None"
    by code_simp
  note t = decryption_failure [OF h1 h2 h3 h4 h5,
      where rest = "[''B.PDF'']" and s = init and before = "[''a.pdf'']"
        and out = "''out.pdf''" and strict = False,
      THEN conjunct2, THEN spec, THEN mp, OF h6]
  from t h1 h2 h3 h4 h5 h6 h7 show ?thesis by (simp only: simp_thms)
qed

subsection \<open>Merging valid inputs\<close>

text \<open>
  Claim C1. For a non-empty list of inputs that all end in \<^verbatim>\<open>.pdf\<close>, exist and open as
  unencrypted documents whose page loop runs to its end, with at least one page in total:
  the document that \<^verbatim>\<open>merge_pdfs\<close> builds is the concatenation of the inputs' pages in
  list order and its counter is the sum of the page counts of the inputs; when the output
  path can be opened and the document written, \<^verbatim>\<open>merge_pdfs\<close> returns that sum and the file
  written at the output path holds that document.
\<close>

theorem merge_valid_inputs:
  assumes "inputs \<noteq> []" and "list_all (valid_plain w) inputs"
    and "concat (map (doc_pages w) inputs) \<noteq> []"
  shows "writer (snd (merge_pdfs w inputs out password strict)) =
           concat (map (doc_pages w) inputs) \<and>
         pages_added (snd (merge_pdfs w inputs out password strict)) =
           sum_list (map (\<lambda>p. length (doc_pages w p)) inputs) \<and>
         (open_wb w out = None \<and>
          writer_write w out (concat (map (doc_pages w) inputs)) = None \<longrightarrow>
            fst (merge_pdfs w inputs out password strict) =
              Inr (sum_list (map (\<lambda>p. length (doc_pages w p)) inputs)) \<and>
            opened (trace (snd (merge_pdfs w inputs out password strict))) = [out] \<and>
            writes (trace (snd (merge_pdfs w inputs out password strict))) =
              [(out, concat (map (doc_pages w) inputs))])"
proof -
  let ?doc = "concat (map (doc_pages w) inputs)"
  let ?n = "sum_list (map (\<lambda>p. length (doc_pages w p)) inputs)"
  have same: "concat (map (appended w password) inputs) = ?doc"
    using assms(2) by (simp add: appended_valid)
  have total: "length ?doc = ?n"
    by (simp add: length_concat comp_def)
  have fin: "fst (merge_loop w password strict inputs init) = None"
    using assms(2) by (rule merge_loop_valid)
  from merge_pdfs_cases [of w password strict inputs out] show ?thesis
  proof cases
    case (aborted e s0 k)
    with fin show ?thesis by simp
  next
    case (no_pages s0)
    from grows_init(2) [OF no_pages(4)] no_pages(2) same assms(3)
    show ?thesis by simp
  next
    case (open_failed e s0)
    note g = grows_init [OF open_failed(5)]
    from g(1) same have w: "writer s0 = ?doc" by simp
    from g(2) same total have n: "pages_added s0 = ?n" by simp
    show ?thesis
      by (simp add: open_failed(3,4) w n)
  next
    case (write_failed e s0)
    note g = grows_init [OF write_failed(6)]
    from g(1) same have w: "writer s0 = ?doc" by simp
    from g(2) same total have n: "pages_added s0 = ?n" by simp
    from write_failed(4) w have "writer_write w out ?doc = Some e" by simp
    then show ?thesis
      by (simp add: write_failed(5) w n)
  next
    case (written s0)
    note g = grows_init [OF written(6)]
    from g(1) same have w: "writer s0 = ?doc" by simp
    from g(2) same total have n: "pages_added s0 = ?n" by simp
    show ?thesis
      by (simp add: written(5) w n opened_append writes_append g(3) g(5))
  qed
qed

theorem merge_valid_inputs_witness:
  "[''a.pdf'', ''B.PDF'', ''a.pdf''] \<noteq> [] \<and>
   list_all (valid_plain demo_world) [''a.pdf'', ''B.PDF'', ''a.pdf''] \<and>
   open_wb demo_world ''out.pdf'' = None \<and>
   writer_write demo_world ''out.pdf'' [Page 1, Page 2, Page 3, Page 1, Page 2] = None \<and>
   fst (merge_pdfs demo_world [''a.pdf'', ''B.PDF'', ''a.pdf''] ''out.pdf'' None True) = Inr 5 \<and>
   writes (trace (snd (merge_pdfs demo_world [''a.pdf'', ''B.PDF'', ''a.pdf''] ''out.pdf''
                         None True))) =
     [(''out.pdf'', [Page 1, Page 2, Page 3, Page 1, Page 2])]"
proof -
  have h1: "[''a.pdf'', ''B.PDF'', ''a.pdf''] \<noteq> []" by simp
  have h2: "list_all (valid_plain demo_world) [''a.pdf'', ''B.PDF'', ''a.pdf'']"
    by code_simp
  have d: "concat (map (doc_pages demo_world) [''a.pdf'', ''B.PDF'', ''a.pdf'']) =
             [Page 1, Page 2, Page 3, Page 1, Page 2]"
    by code_simp
  have h3: "concat (map (doc_pages demo_world) [''a.pdf'', ''B.PDF'', ''a.pdf'']) \<noteq> []"
    unfolding d by simp
  have n: "sum_list (map (\<lambda>p. length (doc_pages demo_world p))
             [''a.pdf'', ''B.PDF'', ''a.pdf'']) = 5"
    by code_simp
  have h4: "open_wb demo_world ''out.pdf'' = None" by code_simp
  have h5: "writer_write demo_world ''out.pdf'' [Page 1, Page 2, Page 3, Page 1, Page 2] = None"
    by code_simp
  from merge_valid_inputs [OF h1 h2 h3, where out = "''out.pdf''" and password = None
      and strict = True] h1 h2 h4 h5
  show ?thesis unfolding d n by (simp only: simp_thms)
qed

subsection \<open>The write of the output file\<close>




subsection \<open>The output document and the pages appended\<close>

text \<open>
  Claim C2, as amended. After every call of \<^verbatim>\<open>merge_pdfs\<close> the page count of the output
  document equals the counter \<^verbatim>\<open>pages_added\<close>, and the document is the concatenation, in
  input order, of what each input reached by the loop has appended (all inputs when the
  loop is not aborted, in particular without the strict flag). An input contributes either
  nothing or the pages its page loop has appended: all its pages when it is processed to
  the end, and the pages appended before the failure when its page loop raises part-way.
  Every page is appended before the write: no page is appended after it.
\<close>

theorem output_is_appended_pages:
  "length (writer (snd (merge_pdfs w inputs out password strict))) =
     pages_added (snd (merge_pdfs w inputs out password strict)) \<and>
   added (trace (snd (merge_pdfs w inputs out password strict))) =
     writer (snd (merge_pdfs w inputs out password strict)) \<and>
   added (after_write (trace (snd (merge_pdfs w inputs out password strict)))) = [] \<and>
   (\<exists>k\<le>length inputs.
      writer (snd (merge_pdfs w inputs out password strict)) =
        concat (map (appended w password) (take k inputs)) \<and>
      (fst (merge_loop w password strict inputs init) = None \<longrightarrow> k = length inputs)) \<and>
   (\<not> strict \<longrightarrow>
      writer (snd (merge_pdfs w inputs out password strict)) =
        concat (map (appended w password) inputs)) \<and>
   (\<forall>p. appended w password p = [] \<or> appended w password p = doc_pages w p) \<and>
   (\<forall>p. processed_ok w password p \<longrightarrow> appended w password p = doc_pages w p)"
proof -
  let ?s = "snd (merge_pdfs w inputs out password strict)"
  have per_file: "(\<forall>p. appended w password p = [] \<or> appended w password p = doc_pages w p) \<and>
      (\<forall>p. processed_ok w password p \<longrightarrow> appended w password p = doc_pages w p)"
    using appended_cases appended_processed_ok by blast
  have run: "length (writer ?s) = pages_added ?s \<and> added (trace ?s) = writer ?s \<and>
      added (after_write (trace ?s)) = [] \<and>
      (\<exists>k\<le>length inputs.
         writer ?s = concat (map (appended w password) (take k inputs)) \<and>
         (fst (merge_loop w password strict inputs init) = None \<longrightarrow> k = length inputs)) \<and>
      (\<not> strict \<longrightarrow> writer ?s = concat (map (appended w password) inputs))"
  proof -
    from merge_pdfs_cases [of w password strict inputs out] show ?thesis
    proof cases
      case (aborted e s0 k)
      note g = grows_init [OF aborted(4)]
      have strict: strict
      proof (rule ccontr)
        assume "\<not> strict"
        then have "fst (merge_loop w password strict inputs init) = None"
          by (simp add: merge_loop_nonstrict)
        with aborted(1) show False by simp
      qed
      have ex: "\<exists>k\<le>length inputs.
         writer s0 = concat (map (appended w password) (take k inputs)) \<and>
         (fst (merge_loop w password strict inputs init) = None \<longrightarrow> k = length inputs)"
        using aborted(1,3) g(1) by (intro exI [of _ k]) simp
      show ?thesis
        unfolding aborted(2) using g ex strict
        by (simp add: after_write_none)
    next
      case (no_pages s0)
      note g = grows_init [OF no_pages(4)]
      have ex: "\<exists>k\<le>length inputs.
         writer s0 = concat (map (appended w password) (take k inputs)) \<and>
         (fst (merge_loop w password strict inputs init) = None \<longrightarrow> k = length inputs)"
        using g(1) by (intro exI [of _ "length inputs"]) simp
      show ?thesis
        unfolding no_pages(3) using g ex
        by (simp add: after_write_none)
    next
      case (open_failed e s0)
      note g = grows_init [OF open_failed(5)]
      have ex: "\<exists>k\<le>length inputs.
         writer s0 = concat (map (appended w password) (take k inputs)) \<and>
         (fst (merge_loop w password strict inputs init) = None \<longrightarrow> k = length inputs)"
        using g(1) by (intro exI [of _ "length inputs"]) simp
      show ?thesis
        unfolding open_failed(4) using g ex
        by (simp add: after_write_none)
    next
      case (write_failed e s0)
      note g = grows_init [OF write_failed(6)]
      have ex: "\<exists>k\<le>length inputs.
         writer s0 = concat (map (appended w password) (take k inputs)) \<and>
         (fst (merge_loop w password strict inputs init) = None \<longrightarrow> k = length inputs)"
        using g(1) by (intro exI [of _ "length inputs"]) simp
      have "writes (trace s0 @ [OpenFile out]) = []"
        using g(3) by (simp add: writes_append)
      then have aw: "after_write (trace s0 @ [OpenFile out]) = []"
        by (rule after_write_none)
      show ?thesis
        unfolding write_failed(5) using g ex aw
        by (simp add: added_append)
    next
      case (written s0)
      note g = grows_init [OF written(6)]
      have ex: "\<exists>k\<le>length inputs.
         writer s0 = concat (map (appended w password) (take k inputs)) \<and>
         (fst (merge_loop w password strict inputs init) = None \<longrightarrow> k = length inputs)"
        using g(1) by (intro exI [of _ "length inputs"]) simp
      show ?thesis
        unfolding written(5) using g ex
        by (simp add: after_write_written added_append)
    qed
  qed
  from run per_file show ?thesis by (elim conjE) (intro conjI; assumption)
qed

theorem output_is_appended_pages_witness:
  "writer (snd (merge_pdfs demo_world [''a.pdf'', ''half.pdf'', ''broken.pdf'', ''B.PDF'']
                  ''out.pdf'' None False)) =
     concat (map (appended demo_world None) [''a.pdf'', ''half.pdf'', ''broken.pdf'', ''B.PDF'']) \<and>
   concat (map (appended demo_world None) [''a.pdf'', ''half.pdf'', ''broken.pdf'', ''B.PDF'']) =
     [Page 1, Page 2, Page 5, Page 3] \<and>
   fst (merge_pdfs demo_world [''a.pdf'', ''half.pdf'', ''broken.pdf'', ''B.PDF'']
          ''out.pdf'' None False) = Inr 4"
proof -
  have a: "concat (map (appended demo_world None)
             [''a.pdf'', ''half.pdf'', ''broken.pdf'', ''B.PDF'']) =
           [Page 1, Page 2, Page 5, Page 3]"
    by code_simp
  have b: "fst (merge_pdfs demo_world [''a.pdf'', ''half.pdf'', ''broken.pdf'', ''B.PDF'']
          ''out.pdf'' None False) = Inr 4"
    by code_simp
  have c: "\<not> False" by simp
  from output_is_appended_pages [where w = demo_world
      and inputs = "[''a.pdf'', ''half.pdf'', ''broken.pdf'', ''B.PDF'']"
      and out = "''out.pdf''" and password = None and strict = False]
  have "writer (snd (merge_pdfs demo_world [''a.pdf'', ''half.pdf'', ''broken.pdf'', ''B.PDF'']
                  ''out.pdf'' None False)) =
     concat (map (appended demo_world None) [''a.pdf'', ''half.pdf'', ''broken.pdf'', ''B.PDF''])"
    using c by (elim conjE) (erule mp)
  with a b show ?thesis by (intro conjI)
qed

text \<open>
  The claim as stated counts only the inputs processed successfully, so that an input
  failing during its processing would contribute no page. The page loop appends and counts
  page by page inside the \<^verbatim>\<open>try\<close> block, and nothing is taken back when it raises: a
  document whose page loop raises after one page leaves that page in the output.
\<close>

theorem partial_pages_counterexample:
  "\<not> processed_ok demo_world None ''half.pdf'' \<and>
   merge_pdfs demo_world [''half.pdf''] ''out.pdf'' None False =
     (Inr 1,
      \<lparr>writer = [Page 5], pages_added = 1,
         trace = [AddPage (Page 5), Print ''[ERROR] Failed to read half.pdf: broken page'',
                  OpenFile ''out.pdf'', WriteFile ''out.pdf'' [Page 5],
                  Print ''[DONE] Wrote out.pdf with 1 pages.'']\<rparr>) \<and>
   length (writer (snd (merge_pdfs demo_world [''half.pdf''] ''out.pdf'' None False))) \<noteq>
     sum_list (map (\<lambda>p. if processed_ok demo_world None p
                        then length (doc_pages demo_world p) else 0) [''half.pdf''])"
  by code_simp

end
